theory Spec2Isabelle
  imports Complex_Main "HOL-Library.Multiset" "HOL-Library.AList"
begin

section \<open>Python string primitives used by \<open>rma/application.py\<close>\<close>

text \<open>
  Key names are Python \<open>str\<close> values, modelled as \<open>string\<close> (a list of characters).
  \<open>startswith\<close> and \<open>endswith\<close> are the methods of the same name; \<open>split_on\<close> is
  \<open>str.split(sep)\<close> for a one-character separator (it cuts at every occurrence and always
  returns at least one piece); \<open>join\<close> is \<open>sep.join(pieces)\<close>.
\<close>

definition startswith :: "string \<Rightarrow> string \<Rightarrow> bool" where
  "startswith s p = (take (length p) s = p)"

definition endswith :: "string \<Rightarrow> string \<Rightarrow> bool" where
  "endswith s p = (length p \<le> length s \<and> drop (length s - length p) s = p)"

fun split_on :: "char \<Rightarrow> string \<Rightarrow> string list" where
  "split_on sep [] = [[]]"
| "split_on sep (c # cs) =
     (if c = sep then [] # split_on sep cs
      else (case split_on sep cs of
              [] \<Rightarrow> [[c]]
            | w # ws \<Rightarrow> (c # w) # ws))"

fun join :: "string \<Rightarrow> string list \<Rightarrow> string" where
  "join sep [] = []"
| "join sep [x] = x"
| "join sep (x # y # ys) = x @ sep @ join sep (y # ys)"

section \<open>Name normalisation\<close>

text \<open>
  \<open>ptransform\<close> (lines 18 to 36): an \<open>if\<close>/\<open>elif\<close> chain, first match wins. The slices
  \<open>spl[0:3]\<close>, \<open>spl[3:]\<close>, \<open>spl[0:1]\<close>, \<open>spl[1:]\<close> are \<open>take\<close> and \<open>drop\<close>; \<open>spl[0]\<close> is
  the head of a list that \<open>str.split\<close> never returns empty (lemma \<open>split_on_nonempty\<close>).
\<close>

definition ptransform :: "string \<Rightarrow> string" where
  "ptransform nm =
     (if startswith nm ''celery-task-meta'' then
        (let spl = split_on (CHR ''-'') nm
         in join ''-'' (take 3 spl) @ '':'' @ join ''-'' (drop 3 spl))
      else if startswith nm ''qo_cli.aff_aggregations.aggregate_aff_aname_aname'' then
        (let spl = split_on (CHR ''-'') nm
         in join ''-'' (take 1 spl) @ '':'' @ join ''-'' (drop 1 spl))
      else if endswith nm ''_trigger_queue_user_job'' then
        (let spl = split_on (CHR ''_'') nm
         in join ''_'' (drop 1 spl) @ '':'' @ join ''_'' (take 1 spl))
      else if endswith nm ''.reply.celery.pidbox'' then
        (let spl = split_on (CHR ''.'') nm
         in join ''.'' (drop 1 spl) @ '':'' @ hd spl)
      else if endswith nm ''_user_queue_user_job'' then
        (let spl = split_on (CHR ''_'') nm
         in join ''_'' (drop 1 spl) @ '':'' @ hd spl)
      else nm)"

text \<open>
  \<open>re.sub(re.compile(r':US:[^:]+'), ':US:1', name)\<close> (lines 193 and 194): the name is scanned
  from the left; where \<open>:US:\<close> is followed by at least one character other than a colon, the
  marker and the whole run of non-colon characters (the quantifier is greedy) are replaced by
  \<open>:US:1\<close> and the scan goes on after the run; elsewhere the character is copied.
\<close>

definition us_match :: "string \<Rightarrow> bool" where
  "us_match s = (startswith s '':US:'' \<and> takeWhile (\<lambda>x. x \<noteq> CHR '':'') (drop 4 s) \<noteq> [])"

function re_sub_US :: "string \<Rightarrow> string" where
  "re_sub_US [] = []"
| "re_sub_US (c # cs) =
     (if us_match (c # cs)
      then '':US:1'' @ re_sub_US (dropWhile (\<lambda>x. x \<noteq> CHR '':'') (drop 4 (c # cs)))
      else c # re_sub_US cs)"
  by pat_completeness auto
termination
proof (relation "measure length")
  fix c :: char and cs :: string
  have "length (dropWhile (\<lambda>x. x \<noteq> CHR '':'') (drop 4 (c # cs))) \<le> length (drop 4 (c # cs))"
    by (rule length_dropWhile_le)
  then show "(dropWhile (\<lambda>x. x \<noteq> CHR '':'') (drop 4 (c # cs)), c # cs) \<in> measure length"
    by simp
qed simp_all

text \<open>
  The normalisation of a name, as line 194 computes it for the pattern deriver: the masking,
  then the transposition.
\<close>

definition normalize :: "string \<Rightarrow> string" where
  "normalize nm = ptransform (re_sub_US nm)"

section \<open>Glob matching\<close>

text \<open>
  \<open>fnmatch.fnmatch(name, pat)\<close> of the Python standard library, as the grouper uses it:
  \<open>*\<close> matches any run of characters (the empty one too), \<open>?\<close> matches exactly one
  character, any other character matches itself, and the whole name has to be consumed. On
  POSIX the case normalisation that \<open>fnmatch.fnmatch\<close> applies first is the identity.
  Bracket expressions (\<open>[seq]\<close>) are left out: the model is the library's behaviour on
  patterns without \<open>[\<close>, and no name or template evaluated below contains one.
\<close>

fun fnmatch :: "string \<Rightarrow> string \<Rightarrow> bool" where
  "fnmatch [] [] = True"
| "fnmatch (c # cs) [] = False"
| "fnmatch [] (p # ps) = (p = CHR ''*'' \<and> fnmatch [] ps)"
| "fnmatch (c # cs) (p # ps) =
     (if p = CHR ''*'' then fnmatch (c # cs) ps \<or> fnmatch cs (p # ps)
      else (p = CHR ''?'' \<or> p = c) \<and> fnmatch cs ps)"

section \<open>Data model\<close>

text \<open>
  Every \<open>raise\<close> the model can reach is a value of \<open>error\<close>; \<open>SystemExit\<close> carries the
  argument of \<open>sys.exit\<close>.
\<close>

datatype error =
    ConnectionError
  | ResponseError
  | KeyError
  | ValueError
  | IndexError
  | ZeroDivisionError
  | SystemExit int

text \<open>
  Modelled from the spec: \<open>rma/redis_types.py\<close> (the type identifiers and
  \<open>type_id_to_redis_type\<close>) is not among the sources. The spec's data model (section 3) has
  the enumeration STRING, HASH, LIST, SET, ZSET, and its scenarios name the types
  \<open>"string"\<close> and \<open>"zset"\<close>; the other three names follow the same convention.
\<close>

datatype redis_type_id =
    REDIS_TYPE_ID_STRING
  | REDIS_TYPE_ID_HASH
  | REDIS_TYPE_ID_LIST
  | REDIS_TYPE_ID_SET
  | REDIS_TYPE_ID_ZSET

fun type_id_to_redis_type :: "redis_type_id \<Rightarrow> string" where
  "type_id_to_redis_type REDIS_TYPE_ID_STRING = ''string''"
| "type_id_to_redis_type REDIS_TYPE_ID_HASH = ''hash''"
| "type_id_to_redis_type REDIS_TYPE_ID_LIST = ''list''"
| "type_id_to_redis_type REDIS_TYPE_ID_SET = ''set''"
| "type_id_to_redis_type REDIS_TYPE_ID_ZSET = ''zset''"

definition REDIS_TYPE_ID_ALL :: "redis_type_id list" where
  "REDIS_TYPE_ID_ALL =
     [REDIS_TYPE_ID_STRING, REDIS_TYPE_ID_HASH, REDIS_TYPE_ID_LIST, REDIS_TYPE_ID_SET,
      REDIS_TYPE_ID_ZSET]"

text \<open>
  One record of the scan, the dictionary
  \<open>{'name': 'a:b:c:0123', 'type': 1, 'encoding': 4, 'ttl': -1}\<close> of the docstring of
  \<open>get_pattern_aggregated_data\<close>.
\<close>

record key_info =
  name :: string
  type :: redis_type_id
  encoding :: nat
  ttl :: int

text \<open>
  A Python \<open>dict\<close> keeps its keys in insertion order and an assignment to a key that is
  present keeps the key's place: an association list under \<open>AList.update\<close>.
\<close>

type_synonym aggregate = "(string \<times> key_info list) list"

section \<open>The pattern grouper\<close>

text \<open>
  \<open>get_pattern_aggregated_data\<close> (lines 185 to 204). \<open>split\<close> stands for
  \<open>self.splitter.split\<close>, the pattern deriver of \<open>rma/splitter.py\<close>, which is not among the
  sources: it is a parameter. \<open>data[0]\<close> raises \<open>IndexError\<close> on an empty list. Line 194
  hands the deriver the masked and transposed names; line 201 matches each template against
  \<open>ptransform(obj["name"])\<close>.
\<close>

definition get_pattern_aggregated_data ::
  "(string list \<Rightarrow> string list) \<Rightarrow> key_info list \<Rightarrow> error + aggregate" where
  "get_pattern_aggregated_data split data =
     (case data of
        [] \<Rightarrow> Inl IndexError
      | d0 # _ \<Rightarrow>
          (let split_patterns = split (map (\<lambda>obj. ptransform (re_sub_US (name obj))) data);
               aggregate_patterns = foldl (\<lambda>d item. AList.update item [] d) [] split_patterns
           in Inr (foldl
                     (\<lambda>d pattern.
                        AList.update pattern
                          (filter (\<lambda>obj. fnmatch (ptransform (name obj)) pattern) data) d)
                     aggregate_patterns split_patterns)))"

text \<open>
  Lines 129 to 131 of \<open>run\<close>: the records the scanner yields are appended to a
  \<open>defaultdict(list)\<close> under their type; a missing key starts from the empty list.
\<close>

definition collect_keys :: "key_info list \<Rightarrow> (redis_type_id \<times> key_info list) list" where
  "collect_keys vs =
     foldl
       (\<lambda>keys v.
          AList.update (type v)
            ((case map_of keys (type v) of None \<Rightarrow> [] | Some l \<Rightarrow> l) @ [v]) keys)
       [] vs"

text \<open>
  Line 136 of \<open>run\<close>: the dictionary comprehension
  \<open>{k: self.get_pattern_aggregated_data(v) for k, v in keys.items()}\<close>; the first
  exception ends it.
\<close>

fun aggregate_all ::
  "(string list \<Rightarrow> string list) \<Rightarrow> (redis_type_id \<times> key_info list) list
   \<Rightarrow> error + (redis_type_id \<times> aggregate) list" where
  "aggregate_all split [] = Inr []"
| "aggregate_all split ((k, v) # rest) =
     (case get_pattern_aggregated_data split v of
        Inl e \<Rightarrow> Inl e
      | Inr g \<Rightarrow>
          (case aggregate_all split rest of
             Inl e \<Rightarrow> Inl e
           | Inr gs \<Rightarrow> Inr ((k, g) # gs)))"

text \<open>
  Modelled from the spec: \<open>rma/splitter.py\<close> (\<open>SimpleSplitter\<close>) is not among the sources and
  the spec leaves its algorithm open. It gives the contract (section 6: the deriver returns
  the set of distinct wildcard templates that cover the names it is given; section 3: a
  template is a name with its variable segments replaced by a glob wildcard) and one value
  (section 8, scenario A: \<open>user:1:p\<close> and \<open>user:2:p\<close> give the single template
  \<open>user:*:p\<close>). \<open>simple_split\<close> is the least deriver with that contract and that value: a
  name is cut at the separator, every segment but the first that is a run of digits becomes
  \<open>*\<close>, and the distinct results are kept in order of first appearance. It is used only
  where a theorem evaluates the grouper on concrete records.
\<close>

definition is_digits :: "string \<Rightarrow> bool" where
  "is_digits s = (s \<noteq> [] \<and> list_all (\<lambda>c. c \<in> set ''0123456789'') s)"

fun map_part_to_glob :: "string list \<Rightarrow> string list" where
  "map_part_to_glob [] = []"
| "map_part_to_glob (p # ps) = p # map (\<lambda>q. if is_digits q then ''*'' else q) ps"

fun first_seen :: "'a list \<Rightarrow> 'a list \<Rightarrow> 'a list" where
  "first_seen seen [] = []"
| "first_seen seen (x # xs) =
     (if List.member seen x then first_seen seen xs else x # first_seen (x # seen) xs)"

definition simple_split :: "char \<Rightarrow> string list \<Rightarrow> string list" where
  "simple_split sep names =
     first_seen [] (map (\<lambda>n. join [sep] (map_part_to_glob (split_on sep n))) names)"

section \<open>The census of the scanner mode\<close>

text \<open>
  Line 166 divides two Python integers with \<open>/\<close>: the quotient is a float, the IEEE 754
  double nearest to the exact quotient (ties to the even significand), and the division by
  zero raises. \<open>nearest_double a b\<close> is the exact value of that double, as a rational, for a
  quotient in the range of the normal doubles (which holds when both numbers are below
  \<open>2 ^ 1000\<close>): the quotient is scaled by a power of two to a significand of 53 bits,
  rounded, and scaled back. \<open>bit_length\<close> is \<open>int.bit_length\<close>.
\<close>

definition round_half_even :: "rat \<Rightarrow> int" where
  "round_half_even x =
     (let f = \<lfloor>x\<rfloor>; r = x - of_int f
      in if r < 1 / 2 then f
         else if 1 / 2 < r then f + 1
         else if even f then f else f + 1)"

fun bit_length :: "nat \<Rightarrow> nat" where
  "bit_length n = (if n = 0 then 0 else Suc (bit_length (n div 2)))"

definition pow2 :: "int \<Rightarrow> rat" where
  "pow2 k = (if 0 \<le> k then 2 ^ nat k else 1 / 2 ^ nat (- k))"

definition nearest_double :: "nat \<Rightarrow> nat \<Rightarrow> rat" where
  "nearest_double a b =
     (if a = 0 then 0
      else
        (let x = of_nat a / of_nat b;
             d = int (bit_length a) - int (bit_length b);
             e = (if pow2 d \<le> x then d else d - 1);
             sh = 52 - e
         in of_int (round_half_even (x * pow2 sh)) / pow2 sh))"

definition py_truediv :: "nat \<Rightarrow> nat \<Rightarrow> error + rat" where
  "py_truediv a b = (if b = 0 then Inl ZeroDivisionError else Inr (nearest_double a b))"

text \<open>
  Modelled from the spec: \<open>rma/helpers\<close> (\<open>floored_percentage\<close>) is not among the sources.
  Section 4.4 of the spec gives the census percentage as the floor, to the given number of
  decimals, of one hundred times the ratio it is handed.
\<close>

definition floored_percentage :: "rat \<Rightarrow> nat \<Rightarrow> rat" where
  "floored_percentage val digits = of_int \<lfloor>val * 10 ^ (digits + 2)\<rfloor> / 10 ^ digits"

text \<open>
  The store as the application sees it: what \<open>info()\<close> answers (or raises), what
  \<open>dbsize()\<close> answers, and the records \<open>scanner.scan(limit)\<close> yields in this run (the
  scanner of \<open>rma/scanner.py\<close> is a collaborator).
\<close>

record rma_redis =
  info_reply :: "error + (string \<times> string) list"
  dbsize :: nat
  scanned :: "key_info list"

text \<open>
  A census row is the list \<open>[name, count, type, percent]\<close> of line 166.
  \<open>keys.sort(key=lambda x: x[1], reverse=True)\<close> is Python's stable sort, which keeps rows
  of equal count in their order also under \<open>reverse=True\<close>: the stable insertion sort
  \<open>sort_key\<close> on the negated count.
\<close>

type_synonym census_row = "string \<times> nat \<times> string \<times> rat"

definition row_count :: "census_row \<Rightarrow> nat" where
  "row_count x = fst (snd x)"

definition sort_reverse :: "census_row list \<Rightarrow> census_row list" where
  "sort_reverse keys = sort_key (\<lambda>x. - int (row_count x)) keys"

text \<open>The inner loop of \<open>do_scanner\<close> (lines 164 to 167), for one type.\<close>

fun scanner_items ::
  "nat \<Rightarrow> string \<Rightarrow> aggregate \<Rightarrow> census_row list \<Rightarrow> error + census_row list" where
  "scanner_items tot r_type [] keys = Inr keys"
| "scanner_items tot r_type ((k, v) # rest) keys =
     (case py_truediv (length v) tot of
        Inl e \<Rightarrow> Inl e
      | Inr q \<Rightarrow>
          scanner_items tot r_type rest
            (sort_reverse (keys @ [(k, length v, r_type, floored_percentage q 2)])))"

text \<open>The outer loop (lines 160 to 167), over the types in the order of the dictionary.\<close>

fun scanner_types ::
  "nat \<Rightarrow> (redis_type_id \<times> aggregate) list \<Rightarrow> census_row list \<Rightarrow> error + census_row list" where
  "scanner_types tot [] keys = Inr keys"
| "scanner_types tot ((key, aggregate_patterns) # rest) keys =
     (case scanner_items tot (type_id_to_redis_type key) aggregate_patterns keys of
        Inl e \<Rightarrow> Inl e
      | Inr keys' \<Rightarrow> scanner_types tot rest keys')"

text \<open>
  \<open>do_scanner\<close> (lines 157 to 169); \<open>limit\<close> is \<open>self.limit\<close>. The headers of the result are
  the constant list \<open>['name', 'count', 'type', 'percent']\<close>; \<open>tot\<close> above is the
  variable \<open>total\<close> of line 159.
\<close>

definition do_scanner ::
  "rma_redis \<Rightarrow> nat \<Rightarrow> (redis_type_id \<times> aggregate) list \<Rightarrow> error + census_row list" where
  "do_scanner r limit res = scanner_types (min (dbsize r) limit) res []"

text \<open>
  For stating the properties of the census: the row that line 166 builds for one template
  of a type, and all the rows of a run in the order in which the two loops append them.
\<close>

definition census_row :: "nat \<Rightarrow> string \<Rightarrow> string \<times> key_info list \<Rightarrow> census_row" where
  "census_row tot r_type kv =
     (fst kv, length (snd kv), r_type,
      floored_percentage (nearest_double (length (snd kv)) tot) 2)"

definition appended_rows :: "nat \<Rightarrow> (redis_type_id \<times> aggregate) list \<Rightarrow> census_row list" where
  "appended_rows tot res =
     concat (map (\<lambda>(key, aggregate_patterns).
                    map (census_row tot (type_id_to_redis_type key)) aggregate_patterns) res)"

section \<open>The type rule engine\<close>

text \<open>
  The rule classes of \<open>rma/rule\<close> that \<open>init_types_rules\<close> instantiates; what a rule's
  \<open>analyze(keys=..., total=...)\<close> returns is a parameter \<open>analyze\<close> of the engine.
  \<open>types_rules\<close> is the class attribute of lines 76 to 82.
\<close>

datatype rule = KeyString | ValueString | Hash | List | Set

definition types_rules_0 :: "(redis_type_id \<times> rule list) list" where
  "types_rules_0 =
     [(REDIS_TYPE_ID_STRING, []), (REDIS_TYPE_ID_HASH, []), (REDIS_TYPE_ID_LIST, []),
      (REDIS_TYPE_ID_SET, []), (REDIS_TYPE_ID_ZSET, [])]"

definition append_rule ::
  "redis_type_id \<Rightarrow> rule \<Rightarrow> (redis_type_id \<times> rule list) list
   \<Rightarrow> (redis_type_id \<times> rule list) list" where
  "append_rule k r types_rules = AList.map_entry k (\<lambda>l. l @ [r]) types_rules"

definition init_types_rules ::
  "(redis_type_id \<times> rule list) list \<Rightarrow> (redis_type_id \<times> rule list) list" where
  "init_types_rules types_rules =
     (append_rule REDIS_TYPE_ID_ZSET KeyString
     (append_rule REDIS_TYPE_ID_SET Set
     (append_rule REDIS_TYPE_ID_SET KeyString
     (append_rule REDIS_TYPE_ID_LIST List
     (append_rule REDIS_TYPE_ID_LIST KeyString
     (append_rule REDIS_TYPE_ID_HASH Hash
     (append_rule REDIS_TYPE_ID_HASH KeyString
     (append_rule REDIS_TYPE_ID_STRING ValueString
     (append_rule REDIS_TYPE_ID_STRING KeyString types_rules)))))))))"

definition total_keys :: "aggregate \<Rightarrow> nat" where
  "total_keys aggregate_patterns = sum_list (map (\<lambda>(key, values). length values) aggregate_patterns)"

text \<open>
  \<open>do_ram\<close> (lines 171 to 183): \<open>ret\<close> is a dictionary from the type's name to a statistic;
  \<open>key in self.types_rules\<close> and the lookup \<open>self.types_rules[key]\<close> are the \<open>map_of\<close>.
\<close>

definition do_ram ::
  "(rule \<Rightarrow> aggregate \<Rightarrow> nat \<Rightarrow> 'stat) \<Rightarrow> (redis_type_id \<times> rule list) list
   \<Rightarrow> redis_type_id list \<Rightarrow> (redis_type_id \<times> aggregate) list \<Rightarrow> (string \<times> 'stat) list" where
  "do_ram analyze types_rules types res =
     foldl
       (\<lambda>ret (key, aggregate_patterns).
          (case map_of types_rules key of
             None \<Rightarrow> ret
           | Some rules \<Rightarrow>
               if key \<in> set types then
                 (let redis_type = type_id_to_redis_type key
                  in foldl
                       (\<lambda>ret rule.
                          AList.update redis_type
                            (analyze rule aggregate_patterns (total_keys aggregate_patterns)) ret)
                       ret rules)
               else ret))
       [] res"

text \<open>The body of the outer loop of \<open>do_ram\<close>, named for the proofs.\<close>

definition ram_step ::
  "(rule \<Rightarrow> aggregate \<Rightarrow> nat \<Rightarrow> 'stat) \<Rightarrow> (redis_type_id \<times> rule list) list
   \<Rightarrow> redis_type_id list \<Rightarrow> (string \<times> 'stat) list \<Rightarrow> redis_type_id \<times> aggregate \<Rightarrow> (string \<times> 'stat) list" where
  "ram_step analyze types_rules tys ret p =
     (case p of (key, aggregate_patterns) \<Rightarrow>
          (case map_of types_rules key of
             None \<Rightarrow> ret
           | Some rules \<Rightarrow>
               if key \<in> set tys then
                 (let redis_type = type_id_to_redis_type key
                  in foldl
                       (\<lambda>ret rule.
                          AList.update redis_type
                            (analyze rule aggregate_patterns (total_keys aggregate_patterns)) ret)
                       ret rules)
               else ret))"

section \<open>Connecting and the version check\<close>

text \<open>
  \<open>int(s)\<close> on a string, as line 65 applies it to each piece of the version: white space
  around the number is dropped, one sign may lead, and the digits may be grouped by single
  underscores; anything else raises \<open>ValueError\<close>.
\<close>

definition is_space :: "char \<Rightarrow> bool" where
  "is_space c =
     (c \<in> set [CHR '' '', CHR 0x09, CHR 0x0A, CHR 0x0B, CHR 0x0C, CHR 0x0D,
                CHR 0x1C, CHR 0x1D, CHR 0x1E, CHR 0x1F])"

definition strip :: "string \<Rightarrow> string" where
  "strip s = rev (dropWhile is_space (rev (dropWhile is_space s)))"

definition digits_value :: "string \<Rightarrow> nat" where
  "digits_value s = foldl (\<lambda>n c. 10 * n + (of_char c - 48)) 0 s"

definition py_int :: "string \<Rightarrow> error + int" where
  "py_int s =
     (let t = strip s;
          negative = (t \<noteq> [] \<and> hd t = CHR ''-'');
          u = (if t \<noteq> [] \<and> (hd t = CHR ''-'' \<or> hd t = CHR ''+'') then tl t else t);
          groups = split_on (CHR ''_'') u
      in if list_all is_digits groups
         then Inr (if negative then - int (digits_value (concat groups))
                   else int (digits_value (concat groups)))
         else Inl ValueError)"

text \<open>\<open>tuple(map(int, pieces))\<close>: the first piece that is not a number raises.\<close>

fun map_int :: "string list \<Rightarrow> error + int list" where
  "map_int [] = Inr []"
| "map_int (p # ps) =
     (case py_int p of
        Inl e \<Rightarrow> Inl e
      | Inr n \<Rightarrow> (case map_int ps of Inl e \<Rightarrow> Inl e | Inr ns \<Rightarrow> Inr (n # ns)))"

text \<open>
  \<open>check_redis_version\<close> (lines 62 to 70). \<open>server_info['redis_version']\<close> raises
  \<open>KeyError\<close> when the entry is missing; \<open>version[1]\<close> is read only when \<open>version[0]\<close> is
  2, and raises \<open>IndexError\<close> when the version has a single component.
\<close>

definition check_redis_version :: "rma_redis \<Rightarrow> error + bool" where
  "check_redis_version redis =
     (case info_reply redis of
        Inl e \<Rightarrow> Inl e
      | Inr server_info \<Rightarrow>
          (case map_of server_info ''redis_version'' of
             None \<Rightarrow> Inl KeyError
           | Some version_str \<Rightarrow>
               (case map_int (split_on (CHR ''.'') version_str) of
                  Inl e \<Rightarrow> Inl e
                | Inr version \<Rightarrow>
                    (case version of
                       [] \<Rightarrow> Inl IndexError
                     | v0 # vs \<Rightarrow>
                         if 2 < v0 then Inr True
                         else if v0 = 2 then
                           (case vs of [] \<Rightarrow> Inl IndexError | v1 # _ \<Rightarrow> Inr (6 \<le> v1))
                         else Inr False))))"

text \<open>
  \<open>connect_to_redis\<close> (lines 39 to 59); \<open>redis\<close> is the handle \<open>RmaRedis(...)\<close> returns.
  The two \<open>except\<close> clauses turn a connection or response error into \<open>sys.exit(-1)\<close>; an
  unsupported version exits in the same way; any other exception leaves the function as it
  is.
\<close>

definition connect_to_redis :: "rma_redis \<Rightarrow> error + rma_redis" where
  "connect_to_redis redis =
     (case check_redis_version redis of
        Inl ConnectionError \<Rightarrow> Inl (SystemExit (- 1))
      | Inl ResponseError \<Rightarrow> Inl (SystemExit (- 1))
      | Inl e \<Rightarrow> Inl e
      | Inr ok \<Rightarrow> if \<not> ok then Inl (SystemExit (- 1)) else Inr redis)"

section \<open>The application\<close>

text \<open>
  The attributes \<open>__init__\<close> sets (lines 84 to 104). \<open>splitter\<close> is
  \<open>SimpleSplitter(separator)\<close>, held as the separator it is built from (one character; the
  default is the colon); the reporter is chosen by \<open>isTextFormat\<close>.
\<close>

record application =
  splitter :: char
  isTextFormat :: bool
  redis :: rma_redis
  match :: string
  limit :: nat
  types :: "redis_type_id list"
  behaviour :: string

text \<open>
  The arguments of \<open>__init__\<close>: \<open>arg_redis\<close> is the handle that \<open>RmaRedis\<close> builds from
  the host, port, password, database and TLS arguments; \<open>arg_types\<close> and \<open>arg_behaviour\<close>
  are the entries \<open>'types'\<close> (converted by \<open>redis_type_to_id\<close>) and \<open>'behaviour'\<close> of
  \<open>filters\<close>, \<open>None\<close> when the entry is absent.
\<close>

record arguments =
  arg_redis :: rma_redis
  arg_separator :: char
  arg_match :: string
  arg_limit :: nat
  arg_types :: "redis_type_id list option"
  arg_behaviour :: "string option"
  arg_format :: string

definition maxsize :: nat where
  "maxsize = 2 ^ 63 - 1"

definition init :: "arguments \<Rightarrow> error + application" where
  "init args =
     (case connect_to_redis (arg_redis args) of
        Inl e \<Rightarrow> Inl e
      | Inr r \<Rightarrow>
          Inr \<lparr>splitter = arg_separator args,
               isTextFormat = (arg_format args = ''text''),
               redis = r,
               match = arg_match args,
               limit = (if arg_limit args \<noteq> 0 then arg_limit args else maxsize),
               types = (case arg_types args of Some ts \<Rightarrow> ts | None \<Rightarrow> REDIS_TYPE_ID_ALL),
               behaviour = (case arg_behaviour args of Some b \<Rightarrow> b | None \<Rightarrow> ''all'')\<rparr>)"

text \<open>
  The parts of a run's result (\<open>str_res\<close>, the list handed to the reporter) and the calls
  that \<open>application.py\<close> itself issues to the store, the scanner and the reporter.
\<close>

datatype ('stat, 'node) result =
    Nodes "'node list"
  | Keys "census_row list"
  | Stat "(string \<times> 'stat) list"

datatype call = INFO | SCAN | DBSIZE | PRINT

datatype global = GlobalKeySpace

definition init_globals :: "global list \<Rightarrow> global list" where
  "init_globals globals = globals @ [GlobalKeySpace]"

definition do_globals :: "(global \<Rightarrow> 'node) \<Rightarrow> global list \<Rightarrow> 'node list" where
  "do_globals analyze_global globals = map analyze_global globals"

text \<open>
  \<open>run\<close> (lines 122 to 148), for the first run of a process: the class attributes
  \<open>types_rules\<close> and \<open>globals\<close> start from their values of lines 74 to 82. \<open>split\<close> is
  the method \<open>split\<close> of a splitter built from a separator, \<open>analyze\<close> and
  \<open>analyze_global\<close> are the \<open>analyze\<close> methods of the rules and of the global analyser.
  The result pairs the calls issued, in order, with the list printed or the exception that
  ended the run.
\<close>

definition run ::
  "(char \<Rightarrow> string list \<Rightarrow> string list) \<Rightarrow> (rule \<Rightarrow> aggregate \<Rightarrow> nat \<Rightarrow> 'stat)
   \<Rightarrow> (global \<Rightarrow> 'node) \<Rightarrow> application
   \<Rightarrow> call list \<times> (error + ('stat, 'node) result list)" where
  "run split analyze analyze_global app =
     (let types_rules = init_types_rules types_rules_0;
          globals = init_globals [];
          is_all = (behaviour app = ''all'');
          keys = collect_keys (scanned (redis app));
          calls = SCAN # (if isTextFormat app then [DBSIZE] else [])
      in case aggregate_all (split (splitter app)) keys of
           Inl e \<Rightarrow> (calls, Inl e)
         | Inr keys' \<Rightarrow>
             (let res_global =
                    (if behaviour app = ''global'' \<or> is_all
                     then [Nodes (do_globals analyze_global globals)] else []);
                  res_ram =
                    (if behaviour app = ''ram'' \<or> is_all
                     then [Stat (do_ram analyze types_rules (types app) keys')] else [])
              in if behaviour app = ''scanner'' \<or> is_all then
                   (case do_scanner (redis app) (limit app) keys' of
                      Inl e \<Rightarrow> (calls @ [DBSIZE], Inl e)
                    | Inr rows \<Rightarrow>
                        (calls @ [DBSIZE, PRINT], Inr (res_global @ [Keys rows] @ res_ram)))
                 else (calls @ [PRINT], Inr (res_global @ res_ram))))"

text \<open>
  Modelled from the spec: the entry point that builds the application and runs it
  (\<open>rma/cli.py\<close>) is not among the sources. By sections 6 and 7 of the spec the connection
  and the version check come first and a failure there ends the program; \<open>run\<close> is a method
  of the object that \<open>__init__\<close> returns, so it is reached only when \<open>__init__\<close> returned.
\<close>

definition rma_main ::
  "(char \<Rightarrow> string list \<Rightarrow> string list) \<Rightarrow> (rule \<Rightarrow> aggregate \<Rightarrow> nat \<Rightarrow> 'stat)
   \<Rightarrow> (global \<Rightarrow> 'node) \<Rightarrow> arguments
   \<Rightarrow> call list \<times> (error + ('stat, 'node) result list)" where
  "rma_main split analyze analyze_global args =
     (case init args of
        Inl e \<Rightarrow> ([INFO], Inl e)
      | Inr app \<Rightarrow>
          (case run split analyze analyze_global app of (calls, out) \<Rightarrow> (INFO # calls, out)))"

section \<open>Properties of the name normaliser\<close>

lemma split_on_nonempty: "split_on sep s \<noteq> []"
  by (induction s) (auto split: list.splits)











text \<open>
  The suffix cases re-trigger too, through the masking: the transposition moves the
  identifier \<open>US:a\<close> behind a colon, where the second pass masks it.
\<close>

lemma normalize_twice_masks_again:
  "normalize ''US:a_trigger_queue_user_job'' = ''trigger_queue_user_job:US:a'' \<and>
   normalize (normalize ''US:a_trigger_queue_user_job'') = ''trigger_queue_user_job:US:1''"
  by code_simp



text \<open>
  Claim C4, as the spec states it: normalising \<open>celery-task-meta-aa-bb-cc-dd-ee\<close> gives
  \<open>celery-task-meta-aa-bb:cc-dd-ee\<close>. The code splits on every hyphen, so the first three
  segments are \<open>celery\<close>, \<open>task\<close> and \<open>meta\<close>, and the colon comes right after them.
\<close>

theorem normalize_celery_not_as_stated:
  "normalize ''celery-task-meta-aa-bb-cc-dd-ee'' \<noteq> ''celery-task-meta-aa-bb:cc-dd-ee''"
  by code_simp

text \<open>
  Claim C4, amended: normalising \<open>celery-task-meta-aa-bb-cc-dd-ee\<close> gives
  \<open>celery-task-meta:aa-bb-cc-dd-ee\<close>.
\<close>

theorem normalize_celery:
  "normalize ''celery-task-meta-aa-bb-cc-dd-ee'' = ''celery-task-meta:aa-bb-cc-dd-ee''"
  by code_simp

section \<open>Properties of the pattern grouper\<close>

text \<open>A loop of dictionary assignments: what it leaves under each key.\<close>

lemma map_of_foldl_update:
  "map_of (foldl (\<lambda>d p. AList.update p (f p) d) d0 ps) k =
     (if k \<in> set ps then Some (f k) else map_of d0 k)"
  by (induction ps arbitrary: d0) (auto simp: update_conv')

lemma keys_foldl_update:
  "fst ` set (foldl (\<lambda>d p. AList.update p (f p) d) d0 ps) = fst ` set d0 \<union> set ps"
  by (induction ps arbitrary: d0) (auto simp: dom_update)

lemma distinct_foldl_update:
  "distinct (map fst d0) \<Longrightarrow> distinct (map fst (foldl (\<lambda>d p. AList.update p (f p) d) d0 ps))"
  by (induction ps arbitrary: d0) (auto simp: distinct_update)

text \<open>
  What the grouper returns: its keys are the derived templates, and the group of a template
  holds, in scan order, the records whose transposed name (\<open>ptransform\<close> of the raw name,
  without the masking) the template matches.
\<close>

lemma grouper_groups:
  assumes "get_pattern_aggregated_data split data = Inr g"
  shows "map_of g t =
           (if t \<in> set (split (map (\<lambda>obj. ptransform (re_sub_US (name obj))) data))
            then Some (filter (\<lambda>obj. fnmatch (ptransform (name obj)) t) data) else None)"
proof -
  let ?ps = "split (map (\<lambda>obj. ptransform (re_sub_US (name obj))) data)"
  let ?d0 = "foldl (\<lambda>d item. AList.update item ([] :: key_info list) d) [] ?ps"
  from assms have g: "g = foldl (\<lambda>d pattern. AList.update pattern
        (filter (\<lambda>obj. fnmatch (ptransform (name obj)) pattern) data) d) ?d0 ?ps"
    by (auto simp: get_pattern_aggregated_data_def Let_def split: list.splits)
  have "map_of ?d0 t = (if t \<in> set ?ps then Some [] else None)"
    using map_of_foldl_update [of "\<lambda>_. [] :: key_info list" "[]" ?ps t] by simp
  then show ?thesis
    unfolding g
    using map_of_foldl_update [of "\<lambda>pattern. filter (\<lambda>obj. fnmatch (ptransform (name obj)) pattern) data" ?d0 ?ps t]
    by simp
qed

lemma grouper_distinct:
  assumes "get_pattern_aggregated_data split data = Inr g"
  shows "distinct (map fst g)"
proof -
  let ?ps = "split (map (\<lambda>obj. ptransform (re_sub_US (name obj))) data)"
  let ?d0 = "foldl (\<lambda>d item. AList.update item ([] :: key_info list) d) [] ?ps"
  from assms have g: "g = foldl (\<lambda>d pattern. AList.update pattern
        (filter (\<lambda>obj. fnmatch (ptransform (name obj)) pattern) data) d) ?d0 ?ps"
    by (auto simp: get_pattern_aggregated_data_def Let_def split: list.splits)
  have "distinct (map fst ?d0)"
    by (rule distinct_foldl_update) simp
  then show ?thesis unfolding g by (rule distinct_foldl_update)
qed

lemma grouper_member:
  assumes "get_pattern_aggregated_data split data = Inr g"
  shows "(t, members) \<in> set g \<longleftrightarrow>
           t \<in> set (split (map (\<lambda>obj. ptransform (re_sub_US (name obj))) data)) \<and>
           members = filter (\<lambda>obj. fnmatch (ptransform (name obj)) t) data"
proof -
  have "(t, members) \<in> set g \<longleftrightarrow> map_of g t = Some members"
    using grouper_distinct [OF assms] by simp
  then show ?thesis
    using grouper_groups [OF assms, of t] by auto
qed

text \<open>
  The groups cover the records exactly when every record's transposed name is matched by a
  derived template.
\<close>

lemma grouper_complete_if_covered:
  assumes g: "get_pattern_aggregated_data split data = Inr g"
    and cov: "\<And>obj. obj \<in> set data \<Longrightarrow>
      \<exists>t \<in> set (split (map (\<lambda>obj. ptransform (re_sub_US (name obj))) data)). fnmatch (ptransform (name obj)) t"
  shows "set (concat (map snd g)) = set data"
proof
  show "set (concat (map snd g)) \<subseteq> set data"
  proof
    fix obj assume "obj \<in> set (concat (map snd g))"
    then obtain t ms where "(t, ms) \<in> set g" "obj \<in> set ms" by auto
    then show "obj \<in> set data" using grouper_member [OF g, of t ms] by auto
  qed
next
  show "set data \<subseteq> set (concat (map snd g))"
  proof
    fix obj assume o: "obj \<in> set data"
    from cov [OF o] obtain t where t: "t \<in> set (split (map (\<lambda>obj. ptransform (re_sub_US (name obj))) data))"
      and m: "fnmatch (ptransform (name obj)) t" by blast
    let ?ms = "filter (\<lambda>obj. fnmatch (ptransform (name obj)) t) data"
    have "(t, ?ms) \<in> set g" using grouper_member [OF g, of t ?ms] t by simp
    moreover have "obj \<in> set ?ms" using o m by simp
    ultimately show "obj \<in> set (concat (map snd g))" by force
  qed
qed

text \<open>The per-type lists of \<open>run\<close>: a key enters the dictionary with its first record.\<close>

lemma update_set_cases:
  "(a, b) \<in> set (AList.update k v al) \<Longrightarrow> (a, b) = (k, v) \<or> (a, b) \<in> set al"
  by (induction al) (auto split: if_splits)

lemma collect_step_nonempty:
  assumes "\<forall>(k, l) \<in> set keys. l \<noteq> []"
  shows "\<forall>(k, l) \<in> set (AList.update (type v)
            ((case map_of keys (type v) of None \<Rightarrow> [] | Some l \<Rightarrow> l) @ [v]) keys). l \<noteq> []"
  using assms by (auto dest!: update_set_cases)

lemma collect_foldl_nonempty:
  "\<forall>(k, l) \<in> set keys. l \<noteq> [] \<Longrightarrow>
   \<forall>(k, l) \<in> set (foldl (\<lambda>keys v. AList.update (type v)
            ((case map_of keys (type v) of None \<Rightarrow> [] | Some l \<Rightarrow> l) @ [v]) keys) keys vs). l \<noteq> []"
proof (induction vs arbitrary: keys)
  case Nil
  then show ?case by simp
next
  case (Cons v vs)
  show ?case
    unfolding foldl_Cons
    by (rule Cons.IH) (rule collect_step_nonempty [OF Cons.prems])
qed

lemma collect_keys_nonempty: "(k, l) \<in> set (collect_keys vs) \<Longrightarrow> l \<noteq> []"
  using collect_foldl_nonempty [of "[]" vs] by (auto simp: collect_keys_def)

lemma grouper_total: "data \<noteq> [] \<Longrightarrow> \<exists>g. get_pattern_aggregated_data split data = Inr g"
  by (cases data) (simp_all add: get_pattern_aggregated_data_def Let_def)

lemma aggregate_all_total:
  "\<forall>(k, l) \<in> set keys. l \<noteq> [] \<Longrightarrow>
   \<exists>gs. aggregate_all split keys = Inr gs \<and> map fst gs = map fst keys"
proof (induction keys)
  case Nil
  then show ?case by simp
next
  case (Cons p keys)
  obtain k l where p: "p = (k, l)" by (cases p)
  from Cons.prems p have "l \<noteq> []" by simp
  then obtain g where g: "get_pattern_aggregated_data split l = Inr g"
    using grouper_total by blast
  from Cons obtain gs where "aggregate_all split keys = Inr gs" "map fst gs = map fst keys"
    by auto
  with p g show ?case by simp
qed

text \<open>
  Claim C10: every per-type list that \<open>run\<close> hands to \<open>get_pattern_aggregated_data\<close> is
  non-empty, so that \<open>data[0]\<close> never raises \<open>IndexError\<close> there, and the dictionary
  comprehension of line 136 returns a grouping for every type.
\<close>

theorem per_type_lists_nonempty:
  "(\<forall>(k, data) \<in> set (collect_keys vs).
       data \<noteq> [] \<and> get_pattern_aggregated_data split data \<noteq> Inl IndexError) \<and>
   (\<exists>keys'. aggregate_all split (collect_keys vs) = Inr keys')"
proof
  show "\<forall>(k, data) \<in> set (collect_keys vs).
       data \<noteq> [] \<and> get_pattern_aggregated_data split data \<noteq> Inl IndexError"
  proof (clarify, rule conjI)
    fix k data assume m: "(k, data) \<in> set (collect_keys vs)"
    then show "data \<noteq> []" by (rule collect_keys_nonempty)
    then show "get_pattern_aggregated_data split data \<noteq> Inl IndexError"
      using grouper_total [of data split] by auto
  qed
next
  have "\<forall>(k, l) \<in> set (collect_keys vs). l \<noteq> []"
    using collect_keys_nonempty by blast
  then show "\<exists>keys'. aggregate_all split (collect_keys vs) = Inr keys'"
    using aggregate_all_total [of "collect_keys vs" split] by blast
qed

theorem per_type_lists_nonempty_witness:
  "collect_keys
     [\<lparr>name = ''user:1:p'', type = REDIS_TYPE_ID_STRING, encoding = 0, ttl = - 1\<rparr>,
      \<lparr>name = ''board'', type = REDIS_TYPE_ID_ZSET, encoding = 0, ttl = - 1\<rparr>,
      \<lparr>name = ''user:2:p'', type = REDIS_TYPE_ID_STRING, encoding = 0, ttl = - 1\<rparr>] =
     [(REDIS_TYPE_ID_STRING,
       [\<lparr>name = ''user:1:p'', type = REDIS_TYPE_ID_STRING, encoding = 0, ttl = - 1\<rparr>,
        \<lparr>name = ''user:2:p'', type = REDIS_TYPE_ID_STRING, encoding = 0, ttl = - 1\<rparr>]),
      (REDIS_TYPE_ID_ZSET,
       [\<lparr>name = ''board'', type = REDIS_TYPE_ID_ZSET, encoding = 0, ttl = - 1\<rparr>])] \<and>
   get_pattern_aggregated_data (simple_split (CHR '':''))
     [\<lparr>name = ''board'', type = REDIS_TYPE_ID_ZSET, encoding = 0, ttl = - 1\<rparr>] \<noteq> Inl IndexError \<and>
   (\<exists>keys'. aggregate_all (simple_split (CHR '':''))
      (collect_keys
        [\<lparr>name = ''user:1:p'', type = REDIS_TYPE_ID_STRING, encoding = 0, ttl = - 1\<rparr>,
         \<lparr>name = ''board'', type = REDIS_TYPE_ID_ZSET, encoding = 0, ttl = - 1\<rparr>,
         \<lparr>name = ''user:2:p'', type = REDIS_TYPE_ID_STRING, encoding = 0, ttl = - 1\<rparr>]) = Inr keys')"
proof -
  let ?a = "\<lparr>name = ''user:1:p'', type = REDIS_TYPE_ID_STRING, encoding = 0, ttl = - 1\<rparr>"
  let ?b = "\<lparr>name = ''board'', type = REDIS_TYPE_ID_ZSET, encoding = 0, ttl = - 1\<rparr>"
  let ?c = "\<lparr>name = ''user:2:p'', type = REDIS_TYPE_ID_STRING, encoding = 0, ttl = - 1\<rparr>"
  have c: "collect_keys [?a, ?b, ?c] =
             [(REDIS_TYPE_ID_STRING, [?a, ?c]), (REDIS_TYPE_ID_ZSET, [?b])]"
    by code_simp
  then have m: "(REDIS_TYPE_ID_ZSET, [?b]) \<in> set (collect_keys [?a, ?b, ?c])"
    by simp
  note t = per_type_lists_nonempty [of "[?a, ?b, ?c]" "simple_split (CHR '':'')"]
  from t m have "get_pattern_aggregated_data (simple_split (CHR '':'')) [?b] \<noteq> Inl IndexError"
    by blast
  moreover from t have "\<exists>keys'. aggregate_all (simple_split (CHR '':''))
      (collect_keys [?a, ?b, ?c]) = Inr keys'"
    by blast
  ultimately show ?thesis using c by simp
qed

text \<open>
  Claim C1 says that a record belongs to a template's group exactly when the template
  matches the record's fully normalised name. Line 201 matches the template against
  \<open>ptransform\<close> of the raw name: the masking that line 194 applies before the templates are
  derived is missing there. For the key \<open>id:US:zz_trigger_queue_user_job\<close> the template is
  derived from the masked name \<open>id:US:1\<close>, which no transposition touches; the raw name
  ends with \<open>_trigger_queue_user_job\<close> and is transposed. The template matches the
  normalised name, and the record is not in its group.
\<close>

theorem grouper_matches_unmasked_name:
  "get_pattern_aggregated_data (simple_split (CHR '':''))
     [\<lparr>name = ''id:US:zz_trigger_queue_user_job'', type = REDIS_TYPE_ID_STRING,
        encoding = 0, ttl = - 1\<rparr>] = Inr [(''id:US:*'', [])] \<and>
   normalize ''id:US:zz_trigger_queue_user_job'' = ''id:US:1'' \<and>
   fnmatch (normalize ''id:US:zz_trigger_queue_user_job'') ''id:US:*'' \<and>
   ptransform ''id:US:zz_trigger_queue_user_job'' = ''trigger_queue_user_job:id:US:zz'' \<and>
   \<not> fnmatch (ptransform ''id:US:zz_trigger_queue_user_job'') ''id:US:*''"
  by code_simp

text \<open>
  Claim C2 says that the groups of a type cover all its scanned records. With the same key
  beside an ordinary one, the grouping has a group for each of the two templates, and the
  key \<open>id:US:zz_trigger_queue_user_job\<close> is in neither.
\<close>

theorem grouping_omits_record:
  "get_pattern_aggregated_data (simple_split (CHR '':''))
     [\<lparr>name = ''user:1:p'', type = REDIS_TYPE_ID_STRING, encoding = 0, ttl = - 1\<rparr>,
      \<lparr>name = ''id:US:zz_trigger_queue_user_job'', type = REDIS_TYPE_ID_STRING,
        encoding = 0, ttl = - 1\<rparr>] =
   Inr [(''user:*:p'',
         [\<lparr>name = ''user:1:p'', type = REDIS_TYPE_ID_STRING, encoding = 0, ttl = - 1\<rparr>]),
        (''id:US:*'', [])]"
  by code_simp

section \<open>Properties of the census\<close>

text \<open>
  Sorting, appending a row and sorting again gives what one sort of the longer list gives:
  a stable sort is determined by its input.
\<close>

lemma sort_reverse_snoc: "sort_reverse (sort_reverse xs @ [x]) = sort_reverse (xs @ [x])"
proof -
  let ?f = "\<lambda>x. - int (row_count x)"
  let ?ys = "sort_key ?f (sort_key ?f xs @ [x])"
  have "sort_key ?f (xs @ [x]) = ?ys"
  proof (rule properties_for_sort_key)
    show "mset ?ys = mset (xs @ [x])" by simp
  next
    fix k
    have "filter (\<lambda>y. ?f y = ?f k) ?ys = filter (\<lambda>y. ?f y = ?f k) (sort_key ?f xs @ [x])"
      by (rule sort_key_stable)
    also have "\<dots> = filter (\<lambda>y. ?f y = ?f k) (sort_key ?f xs) @ filter (\<lambda>y. ?f y = ?f k) [x]"
      by simp
    also have "filter (\<lambda>y. ?f y = ?f k) (sort_key ?f xs) = filter (\<lambda>y. ?f y = ?f k) xs"
      by (rule sort_key_stable)
    finally have "filter (\<lambda>y. ?f y = ?f k) ?ys = filter (\<lambda>y. ?f y = ?f k) (xs @ [x])"
      by simp
    moreover have "(\<lambda>y. ?f k = ?f y) = (\<lambda>y. ?f y = ?f k)" by (rule ext) auto
    ultimately show "filter (\<lambda>y. ?f k = ?f y) ?ys = filter (\<lambda>y. ?f k = ?f y) (xs @ [x])"
      by simp
  next
    show "sorted (map ?f ?ys)" by (rule sorted_sort_key)
  qed
  then show ?thesis by (simp add: sort_reverse_def)
qed

lemma sort_reverse_Nil: "sort_reverse [] = []"
  by (simp add: sort_reverse_def)

text \<open>
  The two loops of \<open>do_scanner\<close>: they fail exactly when there is a row to append and the
  denominator is zero, and otherwise return the one stable sort of all the rows.
\<close>

lemma scanner_items_eq:
  "scanner_items tot r_type agg (sort_reverse base) =
     (if tot = 0 \<and> agg \<noteq> [] then Inl ZeroDivisionError
      else Inr (sort_reverse (base @ map (census_row tot r_type) agg)))"
proof (induction agg arbitrary: base)
  case Nil
  show ?case by simp
next
  case (Cons kv agg)
  obtain k v where kv: "kv = (k, v)" by (cases kv)
  show ?case
  proof (cases "tot = 0")
    case True
    then show ?thesis by (simp add: kv py_truediv_def)
  next
    case False
    let ?row = "census_row tot r_type (k, v)"
    have "scanner_items tot r_type (kv # agg) (sort_reverse base) =
            scanner_items tot r_type agg (sort_reverse (sort_reverse base @ [?row]))"
      using False by (simp add: kv py_truediv_def census_row_def)
    also have "\<dots> = scanner_items tot r_type agg (sort_reverse (base @ [?row]))"
      by (simp only: sort_reverse_snoc)
    also have "\<dots> = Inr (sort_reverse ((base @ [?row]) @ map (census_row tot r_type) agg))"
      using False Cons.IH [of "base @ [?row]"] by simp
    finally show ?thesis using False by (simp add: kv)
  qed
qed

lemma scanner_types_eq:
  "scanner_types tot res (sort_reverse base) =
     (if tot = 0 \<and> appended_rows tot res \<noteq> [] then Inl ZeroDivisionError
      else Inr (sort_reverse (base @ appended_rows tot res)))"
proof (induction res arbitrary: base)
  case Nil
  show ?case by (simp add: appended_rows_def)
next
  case (Cons p res)
  obtain key agg where p: "p = (key, agg)" by (cases p)
  have split: "appended_rows tot (p # res) =
                 map (census_row tot (type_id_to_redis_type key)) agg @ appended_rows tot res"
    by (simp add: appended_rows_def p)
  show ?case
  proof (cases "tot = 0 \<and> agg \<noteq> []")
    case True
    then have "appended_rows tot (p # res) \<noteq> []" unfolding split by simp
    with True show ?thesis by (simp add: p scanner_items_eq)
  next
    case False
    let ?rows = "map (census_row tot (type_id_to_redis_type key)) agg"
    from False have "scanner_items tot (type_id_to_redis_type key) agg (sort_reverse base) =
            Inr (sort_reverse (base @ ?rows))"
      using scanner_items_eq [of tot "type_id_to_redis_type key" agg base] by auto
    then have step: "scanner_types tot (p # res) (sort_reverse base) =
            scanner_types tot res (sort_reverse (base @ ?rows))"
      by (simp add: p)
    from False have cond: "(tot = 0 \<and> ?rows @ appended_rows tot res \<noteq> []) =
            (tot = 0 \<and> appended_rows tot res \<noteq> [])"
      by auto
    note step
    also have "scanner_types tot res (sort_reverse (base @ ?rows)) =
        (if tot = 0 \<and> appended_rows tot res \<noteq> [] then Inl ZeroDivisionError
         else Inr (sort_reverse ((base @ ?rows) @ appended_rows tot res)))"
      by (rule Cons.IH)
    also have "\<dots> =
        (if tot = 0 \<and> ?rows @ appended_rows tot res \<noteq> [] then Inl ZeroDivisionError
         else Inr (sort_reverse (base @ ?rows @ appended_rows tot res)))"
      by (simp only: cond append_assoc)
    finally show ?thesis by (simp only: split)
  qed
qed

lemma do_scanner_eq:
  "do_scanner r lmt res =
     (if min (dbsize r) lmt = 0 \<and> appended_rows (min (dbsize r) lmt) res \<noteq> []
      then Inl ZeroDivisionError
      else Inr (sort_reverse (appended_rows (min (dbsize r) lmt) res)))"
proof -
  let ?tot = "min (dbsize r) lmt"
  have "do_scanner r lmt res = scanner_types ?tot res (sort_reverse [])"
    by (simp only: do_scanner_def sort_reverse_Nil)
  also have "\<dots> = (if ?tot = 0 \<and> appended_rows ?tot res \<noteq> [] then Inl ZeroDivisionError
      else Inr (sort_reverse ([] @ appended_rows ?tot res)))"
    by (rule scanner_types_eq)
  finally show ?thesis by (simp only: append_Nil)
qed

lemma sort_reverse_sorted: "sorted_wrt (\<lambda>a b. row_count b \<le> row_count a) (sort_reverse xs)"
proof -
  have "sorted (map (\<lambda>x. - int (row_count x)) (sort_reverse xs))"
    unfolding sort_reverse_def by (rule sorted_sort_key)
  then show ?thesis by (simp add: sorted_map)
qed

lemma sort_reverse_stable:
  "filter (\<lambda>x. row_count x = n) (sort_reverse xs) = filter (\<lambda>x. row_count x = n) xs"
proof -
  have "filter (\<lambda>y. - int (row_count y) = - int n) (sort_key (\<lambda>x. - int (row_count x)) xs) =
        filter (\<lambda>y. - int (row_count y) = - int n) xs"
    by (rule sort_key_stable)
  then show ?thesis by (simp add: sort_reverse_def)
qed

text \<open>
  Claim C6: the census that \<open>do_scanner\<close> returns is sorted by count, descending; rows of
  equal count keep the order in which they were appended; and the list, re-sorted after
  every append, is the list that one stable descending sort of all the appended rows gives.
\<close>

theorem census_sorted_stable:
  assumes "do_scanner r lmt res = Inr keys"
  shows "keys = sort_reverse (appended_rows (min (dbsize r) lmt) res) \<and>
         sorted_wrt (\<lambda>a b. row_count b \<le> row_count a) keys \<and>
         (\<forall>n. filter (\<lambda>x. row_count x = n) keys =
               filter (\<lambda>x. row_count x = n) (appended_rows (min (dbsize r) lmt) res))"
proof -
  from assms have k: "keys = sort_reverse (appended_rows (min (dbsize r) lmt) res)"
    by (simp add: do_scanner_eq split: if_splits)
  show ?thesis
    unfolding k using sort_reverse_sorted sort_reverse_stable by blast
qed

theorem census_sorted_stable_witness:
  "do_scanner \<lparr>info_reply = Inr [], dbsize = 7, scanned = []\<rparr> 1000
     [(REDIS_TYPE_ID_STRING,
       [(''a:*'', replicate 2 \<lparr>name = ''a:1'', type = REDIS_TYPE_ID_STRING, encoding = 0, ttl = - 1\<rparr>),
        (''b:*'', replicate 3 \<lparr>name = ''b:1'', type = REDIS_TYPE_ID_STRING, encoding = 0, ttl = - 1\<rparr>)]),
      (REDIS_TYPE_ID_ZSET,
       [(''z:*'', replicate 2 \<lparr>name = ''z:1'', type = REDIS_TYPE_ID_ZSET, encoding = 0, ttl = - 1\<rparr>)])] =
     Inr [(''b:*'', 3, ''string'', 4285 / 100), (''a:*'', 2, ''string'', 2857 / 100),
          (''z:*'', 2, ''zset'', 2857 / 100)] \<and>
   sorted_wrt (\<lambda>a b. row_count b \<le> row_count a)
     [(''b:*'', 3, ''string'', 4285 / 100), (''a:*'', 2, ''string'', 2857 / 100),
      (''z:*'', 2, ''zset'', 2857 / 100 :: rat)]"
proof -
  let ?r = "\<lparr>info_reply = Inr [], dbsize = 7, scanned = []\<rparr>"
  let ?res = "[(REDIS_TYPE_ID_STRING,
       [(''a:*'', replicate 2 \<lparr>name = ''a:1'', type = REDIS_TYPE_ID_STRING, encoding = 0, ttl = - 1\<rparr>),
        (''b:*'', replicate 3 \<lparr>name = ''b:1'', type = REDIS_TYPE_ID_STRING, encoding = 0, ttl = - 1\<rparr>)]),
      (REDIS_TYPE_ID_ZSET,
       [(''z:*'', replicate 2 \<lparr>name = ''z:1'', type = REDIS_TYPE_ID_ZSET, encoding = 0, ttl = - 1\<rparr>)])]"
  have h: "do_scanner ?r 1000 ?res =
     Inr [(''b:*'', 3, ''string'', 4285 / 100), (''a:*'', 2, ''string'', 2857 / 100),
          (''z:*'', 2, ''zset'', 2857 / 100)]"
    by code_simp
  from census_sorted_stable [OF h] h show ?thesis by blast
qed












section \<open>Properties of the type rule engine\<close>

text \<open>The registry after \<open>init_types_rules\<close>, from the empty class attribute.\<close>

lemma init_types_rules_value:
  "init_types_rules types_rules_0 =
     [(REDIS_TYPE_ID_STRING, [KeyString, ValueString]),
      (REDIS_TYPE_ID_HASH, [KeyString, Hash]),
      (REDIS_TYPE_ID_LIST, [KeyString, List]),
      (REDIS_TYPE_ID_SET, [KeyString, Set]),
      (REDIS_TYPE_ID_ZSET, [KeyString])]"
  by (simp add: init_types_rules_def types_rules_0_def append_rule_def)

text \<open>Two types never share a slot of the result: their names differ.\<close>

lemma type_name_inj: "type_id_to_redis_type a = type_id_to_redis_type b \<Longrightarrow> a = b"
  by (cases a; cases b) simp_all

lemma rules_fold_slot:
  "map_of (foldl (\<lambda>ret rule. AList.update rt (f rule) ret) ret rules) k =
     (if k = rt \<and> rules \<noteq> [] then Some (f (last rules)) else map_of ret k)"
  by (induction rules arbitrary: ret) (auto simp: update_conv')

lemma do_ram_fold: "do_ram analyze types_rules tys res = foldl (ram_step analyze types_rules tys) [] res"
  by (simp add: do_ram_def ram_step_def [abs_def])

lemma ram_step_other:
  "k \<noteq> type_id_to_redis_type key \<Longrightarrow>
   map_of (ram_step analyze types_rules tys ret (key, agg)) k = map_of ret k"
  by (simp add: ram_step_def rules_fold_slot Let_def split: option.splits)

lemma ram_step_hit:
  "map_of types_rules key = Some rules \<Longrightarrow> rules \<noteq> [] \<Longrightarrow> key \<in> set tys \<Longrightarrow>
   map_of (ram_step analyze types_rules tys ret (key, agg)) (type_id_to_redis_type key) =
     Some (analyze (last rules) agg (total_keys agg))"
  by (simp add: ram_step_def rules_fold_slot Let_def)

lemma ram_fold_other:
  "key0 \<notin> fst ` set res \<Longrightarrow>
   map_of (foldl (ram_step analyze types_rules tys) ret res) (type_id_to_redis_type key0) =
     map_of ret (type_id_to_redis_type key0)"
proof (induction res arbitrary: ret)
  case Nil
  show ?case by simp
next
  case (Cons p res)
  obtain key agg where p: "p = (key, agg)" by (cases p)
  from Cons.prems p have ne: "key0 \<noteq> key" and rest: "key0 \<notin> fst ` set res" by auto
  from ne have "type_id_to_redis_type key0 \<noteq> type_id_to_redis_type key"
    using type_name_inj by blast
  then have "map_of (ram_step analyze types_rules tys ret (key, agg)) (type_id_to_redis_type key0) =
             map_of ret (type_id_to_redis_type key0)"
    by (rule ram_step_other)
  then show ?case using Cons.IH [OF rest] by (simp add: p)
qed

lemma ram_fold_slot:
  assumes "distinct (map fst res)" "(key, agg) \<in> set res"
    and "map_of types_rules key = Some rules" "rules \<noteq> []" "key \<in> set tys"
  shows "map_of (foldl (ram_step analyze types_rules tys) ret res) (type_id_to_redis_type key) =
           Some (analyze (last rules) agg (total_keys agg))"
  using assms(1,2)
proof (induction res arbitrary: ret)
  case Nil
  then show ?case by simp
next
  case (Cons p res)
  obtain k a where p: "p = (k, a)" by (cases p)
  show ?case
  proof (cases "k = key")
    case True
    with Cons.prems p have notin: "key \<notin> fst ` set res" by auto
    with Cons.prems p True have a: "a = agg" by force
    have "map_of (foldl (ram_step analyze types_rules tys) (ram_step analyze types_rules tys ret (key, agg)) res)
            (type_id_to_redis_type key) =
          map_of (ram_step analyze types_rules tys ret (key, agg)) (type_id_to_redis_type key)"
      using notin by (rule ram_fold_other)
    also have "\<dots> = Some (analyze (last rules) agg (total_keys agg))"
      using assms(3,4,5) by (rule ram_step_hit)
    finally show ?thesis by (simp add: p True a)
  next
    case False
    with Cons.prems p have "distinct (map fst res)" "(key, agg) \<in> set res" by auto
    then show ?thesis using Cons.IH by (simp add: p)
  qed
qed

text \<open>
  Claim C7: for a type of the grouped data that is accepted and has at least one registered
  rule (so also when it has several), the type's slot of the stat map holds exactly what the
  last registered rule returns; the outputs of the earlier rules are overwritten.
\<close>

theorem last_rule_wins:
  assumes "distinct (map fst res)" and "(key, aggregate_patterns) \<in> set res"
    and "map_of types_rules key = Some rules" and "rules \<noteq> []" and "key \<in> set tys"
  shows "map_of (do_ram analyze types_rules tys res) (type_id_to_redis_type key) =
           Some (analyze (last rules) aggregate_patterns (total_keys aggregate_patterns))"
  unfolding do_ram_fold using assms by (rule ram_fold_slot)

theorem last_rule_wins_witness:
  "map_of (init_types_rules types_rules_0) REDIS_TYPE_ID_STRING = Some [KeyString, ValueString] \<and>
   map_of
     (do_ram (\<lambda>rule keys n. (rule, n)) (init_types_rules types_rules_0) REDIS_TYPE_ID_ALL
        [(REDIS_TYPE_ID_STRING,
          [(''user:*:p'',
            [\<lparr>name = ''user:1:p'', type = REDIS_TYPE_ID_STRING, encoding = 0, ttl = - 1\<rparr>,
             \<lparr>name = ''user:2:p'', type = REDIS_TYPE_ID_STRING, encoding = 0, ttl = - 1\<rparr>])])])
     ''string'' = Some (ValueString, 2)"
proof -
  let ?agg = "[(''user:*:p'',
            [\<lparr>name = ''user:1:p'', type = REDIS_TYPE_ID_STRING, encoding = 0, ttl = - 1\<rparr>,
             \<lparr>name = ''user:2:p'', type = REDIS_TYPE_ID_STRING, encoding = 0, ttl = - 1\<rparr>])]"
  let ?res = "[(REDIS_TYPE_ID_STRING, ?agg)]"
  have d: "distinct (map fst ?res)" by simp
  have m: "(REDIS_TYPE_ID_STRING, ?agg) \<in> set ?res" by simp
  have r: "map_of (init_types_rules types_rules_0) REDIS_TYPE_ID_STRING = Some [KeyString, ValueString]"
    by (simp add: init_types_rules_value)
  have n: "[KeyString, ValueString] \<noteq> []" by simp
  have t: "REDIS_TYPE_ID_STRING \<in> set REDIS_TYPE_ID_ALL" by (simp add: REDIS_TYPE_ID_ALL_def)
  have k: "total_keys ?agg = 2" by (simp add: total_keys_def)
  from last_rule_wins [OF d m r n t, of "\<lambda>rule keys n. (rule, n)"] r k
  show ?thesis by simp
qed

lemma ram_step_skip: "key \<notin> set tys \<Longrightarrow> ram_step analyze types_rules tys ret (key, agg) = ret"
  by (simp add: ram_step_def split: option.splits)

lemma ram_step_zset:
  "ram_step analyze (init_types_rules types_rules_0) [REDIS_TYPE_ID_ZSET] ret (REDIS_TYPE_ID_ZSET, agg) =
     AList.update ''zset'' (analyze KeyString agg (total_keys agg)) ret"
  by (simp add: ram_step_def init_types_rules_value)

lemma ram_fold_zset:
  "distinct (map fst res) \<Longrightarrow>
   foldl (ram_step analyze (init_types_rules types_rules_0) [REDIS_TYPE_ID_ZSET]) ret res =
     (case map_of res REDIS_TYPE_ID_ZSET of
        None \<Rightarrow> ret
      | Some agg \<Rightarrow> AList.update ''zset'' (analyze KeyString agg (total_keys agg)) ret)"
proof (induction res arbitrary: ret)
  case Nil
  show ?case by simp
next
  case (Cons p res)
  obtain k a where p: "p = (k, a)" by (cases p)
  from Cons.prems have d: "distinct (map fst res)" by simp
  show ?case
  proof (cases "k = REDIS_TYPE_ID_ZSET")
    case True
    with Cons.prems p have "REDIS_TYPE_ID_ZSET \<notin> fst ` set res" by auto
    then have "map_of res REDIS_TYPE_ID_ZSET = None" by (simp add: map_of_eq_None_iff)
    then show ?thesis
      using Cons.IH [OF d] by (simp add: p True ram_step_zset)
  next
    case False
    then have "ram_step analyze (init_types_rules types_rules_0) [REDIS_TYPE_ID_ZSET] ret (k, a) = ret"
      by (simp add: ram_step_skip)
    then show ?thesis
      using False Cons.IH [OF d] by (simp add: p)
  qed
qed

text \<open>
  Claim C8: \<open>init_types_rules\<close> registers the key-name rule alone for ZSET and the key-name
  rule followed by a value rule for STRING, HASH, LIST and SET; a ram run restricted to zset
  whose grouped data has the zset bucket returns the stat map with the single entry
  \<open>zset\<close>, the output of the key-name rule.
\<close>

theorem zset_key_rule_only:
  assumes "distinct (map fst res)" and "(REDIS_TYPE_ID_ZSET, aggregate_patterns) \<in> set res"
  shows "map_of (init_types_rules types_rules_0) REDIS_TYPE_ID_ZSET = Some [KeyString] \<and>
         map_of (init_types_rules types_rules_0) REDIS_TYPE_ID_STRING = Some [KeyString, ValueString] \<and>
         map_of (init_types_rules types_rules_0) REDIS_TYPE_ID_HASH = Some [KeyString, Hash] \<and>
         map_of (init_types_rules types_rules_0) REDIS_TYPE_ID_LIST = Some [KeyString, List] \<and>
         map_of (init_types_rules types_rules_0) REDIS_TYPE_ID_SET = Some [KeyString, Set] \<and>
         do_ram analyze (init_types_rules types_rules_0) [REDIS_TYPE_ID_ZSET] res =
           [(''zset'', analyze KeyString aggregate_patterns (total_keys aggregate_patterns))]"
proof -
  from assms have "map_of res REDIS_TYPE_ID_ZSET = Some aggregate_patterns"
    by (rule map_of_is_SomeI)
  then have "do_ram analyze (init_types_rules types_rules_0) [REDIS_TYPE_ID_ZSET] res =
           [(''zset'', analyze KeyString aggregate_patterns (total_keys aggregate_patterns))]"
    unfolding do_ram_fold using ram_fold_zset [OF assms(1), of analyze "[]"] by simp
  then show ?thesis by (simp add: init_types_rules_value)
qed

theorem zset_key_rule_only_witness:
  "do_ram (\<lambda>rule keys n. (rule, n)) (init_types_rules types_rules_0) [REDIS_TYPE_ID_ZSET]
     [(REDIS_TYPE_ID_ZSET,
       [(''board'', [\<lparr>name = ''board'', type = REDIS_TYPE_ID_ZSET, encoding = 0, ttl = - 1\<rparr>])])] =
     [(''zset'', (KeyString, 1))] \<and>
   run simple_split (\<lambda>rule keys n. (rule, n)) (\<lambda>g. ())
     \<lparr>splitter = CHR '':'', isTextFormat = False,
        redis = \<lparr>info_reply = Inr [(''redis_version'', ''6.2.1'')], dbsize = 1,
                 scanned = [\<lparr>name = ''board'', type = REDIS_TYPE_ID_ZSET, encoding = 0, ttl = - 1\<rparr>]\<rparr>,
        match = ''*'', limit = 1000, types = [REDIS_TYPE_ID_ZSET], behaviour = ''ram''\<rparr> =
     ([SCAN, PRINT], Inr [Stat [(''zset'', (KeyString, 1))]])"
proof -
  let ?agg = "[(''board'', [\<lparr>name = ''board'', type = REDIS_TYPE_ID_ZSET, encoding = 0, ttl = - 1\<rparr>])]"
  let ?res = "[(REDIS_TYPE_ID_ZSET, ?agg)]"
  have d: "distinct (map fst ?res)" by simp
  have m: "(REDIS_TYPE_ID_ZSET, ?agg) \<in> set ?res" by simp
  have k: "total_keys ?agg = 1" by (simp add: total_keys_def)
  have r: "run simple_split (\<lambda>rule keys n. (rule, n)) (\<lambda>g. ())
     \<lparr>splitter = CHR '':'', isTextFormat = False,
        redis = \<lparr>info_reply = Inr [(''redis_version'', ''6.2.1'')], dbsize = 1,
                 scanned = [\<lparr>name = ''board'', type = REDIS_TYPE_ID_ZSET, encoding = 0, ttl = - 1\<rparr>]\<rparr>,
        match = ''*'', limit = 1000, types = [REDIS_TYPE_ID_ZSET], behaviour = ''ram''\<rparr> =
     ([SCAN, PRINT], Inr [Stat [(''zset'', (KeyString, 1 :: nat))]])"
    by code_simp
  from zset_key_rule_only [OF d m, of "\<lambda>rule keys n. (rule, n)"] k r
  show ?thesis by simp
qed

section \<open>Properties of the version check\<close>

lemma run_calls_scan: "SCAN \<in> set (fst (run split analyze analyze_global app))"
  by (simp add: run_def Let_def split: sum.splits)

lemma check_redis_version_parsed:
  assumes "info_reply r = Inr server_info"
    and "map_of server_info ''redis_version'' = Some version_str"
    and "map_int (split_on (CHR ''.'') version_str) = Inr (major # minor # rest)"
  shows "check_redis_version r = Inr (2 < major \<or> (major = 2 \<and> 6 \<le> minor))"
  using assms by (auto simp: check_redis_version_def)

lemma connect_to_redis_parsed:
  assumes "info_reply r = Inr server_info"
    and "map_of server_info ''redis_version'' = Some version_str"
    and "map_int (split_on (CHR ''.'') version_str) = Inr (major # minor # rest)"
  shows "connect_to_redis r =
           (if 2 < major \<or> (major = 2 \<and> 6 \<le> minor) then Inr r else Inl (SystemExit (- 1)))"
  using check_redis_version_parsed [OF assms] by (simp add: connect_to_redis_def)

text \<open>
  Whatever the store answers: the connection succeeds only for a version whose first
  component exceeds 2, or is 2 with a second component of at least 6; a failed \<open>__init__\<close>
  ends the program after the call of \<open>info()\<close>; and a scan is issued only after the
  connection succeeded.
\<close>

lemma connect_only_if_supported:
  assumes "connect_to_redis r = Inr r'"
  shows "r' = r \<and>
         (\<exists>server_info version_str major rest.
            info_reply r = Inr server_info \<and>
            map_of server_info ''redis_version'' = Some version_str \<and>
            map_int (split_on (CHR ''.'') version_str) = Inr (major # rest) \<and>
            (2 < major \<or> (major = 2 \<and> (\<exists>minor rest'. rest = minor # rest' \<and> 6 \<le> minor))))"
  using assms
  by (auto simp: connect_to_redis_def check_redis_version_def
           split: sum.splits option.splits list.splits if_splits error.splits)

lemma failed_init_stops_after_info:
  "init args = Inl e \<Longrightarrow> rma_main split analyze analyze_global args = ([INFO], Inl e)"
  by (simp add: rma_main_def)

lemma scan_only_after_connect:
  assumes "SCAN \<in> set (fst (rma_main split analyze analyze_global args))"
  shows "\<exists>app. init args = Inr app \<and> connect_to_redis (arg_redis args) = Inr (redis app)"
proof (cases "init args")
  case (Inl e)
  then have "fst (rma_main split analyze analyze_global args) = [INFO]"
    by (simp add: rma_main_def)
  with assms show ?thesis by simp
next
  case (Inr app)
  then have "connect_to_redis (arg_redis args) = Inr (redis app)"
    by (auto simp: init_def split: sum.splits)
  with Inr show ?thesis by simp
qed

text \<open>
  Claim C9: when the store reports a version \<open>major.minor...\<close>, the application is built
  and the scan is reached if \<open>major > 2\<close>, or \<open>major = 2\<close> and \<open>minor \<ge> 6\<close>; for any other
  version the program ends with \<open>sys.exit(-1)\<close> after the single call \<open>info()\<close>: no scan is
  issued and nothing is printed.
\<close>

theorem version_gate:
  assumes "info_reply (arg_redis args) = Inr server_info"
    and "map_of server_info ''redis_version'' = Some version_str"
    and "map_int (split_on (CHR ''.'') version_str) = Inr (major # minor # rest)"
  shows "if 2 < major \<or> (major = 2 \<and> 6 \<le> minor)
         then (\<exists>app. init args = Inr app \<and> redis app = arg_redis args \<and>
                 rma_main split analyze analyze_global args =
                   (INFO # fst (run split analyze analyze_global app),
                    snd (run split analyze analyze_global app))) \<and>
              SCAN \<in> set (fst (rma_main split analyze analyze_global args))
         else init args = Inl (SystemExit (- 1)) \<and>
              rma_main split analyze analyze_global args = ([INFO], Inl (SystemExit (- 1)))"
proof (cases "2 < major \<or> (major = 2 \<and> 6 \<le> minor)")
  case True
  then have c: "connect_to_redis (arg_redis args) = Inr (arg_redis args)"
    using connect_to_redis_parsed [OF assms] by simp
  then obtain app where app: "init args = Inr app" "redis app = arg_redis args"
    by (simp add: init_def)
  then have m: "rma_main split analyze analyze_global args =
                   (INFO # fst (run split analyze analyze_global app),
                    snd (run split analyze analyze_global app))"
    by (simp add: rma_main_def split: prod.splits)
  then have "SCAN \<in> set (fst (rma_main split analyze analyze_global args))"
    using run_calls_scan [of split analyze analyze_global app] by simp
  with True app m show ?thesis by auto
next
  case False
  then have c: "connect_to_redis (arg_redis args) = Inl (SystemExit (- 1))"
    using connect_to_redis_parsed [OF assms] by simp
  then have "init args = Inl (SystemExit (- 1))" by (simp add: init_def)
  with False show ?thesis by (simp add: rma_main_def)
qed

theorem version_gate_witness:
  "map_int (split_on (CHR ''.'') ''2.4.0'') = Inr [2, 4, 0] \<and>
   rma_main simple_split (\<lambda>rule keys n. (rule, n)) (\<lambda>g. ())
     \<lparr>arg_redis = \<lparr>info_reply = Inr [(''redis_version'', ''2.4.0'')], dbsize = 1,
                     scanned = [\<lparr>name = ''board'', type = REDIS_TYPE_ID_ZSET, encoding = 0, ttl = - 1\<rparr>]\<rparr>,
        arg_separator = CHR '':'', arg_match = ''*'', arg_limit = 0, arg_types = None,
        arg_behaviour = None, arg_format = ''text''\<rparr> =
     ([INFO], Inl (SystemExit (- 1)) :: error + (rule \<times> nat, unit) result list)"
proof -
  let ?r = "\<lparr>info_reply = Inr [(''redis_version'', ''2.4.0'')], dbsize = 1,
                     scanned = [\<lparr>name = ''board'', type = REDIS_TYPE_ID_ZSET, encoding = 0, ttl = - 1\<rparr>]\<rparr>"
  let ?args = "\<lparr>arg_redis = ?r,
        arg_separator = CHR '':'', arg_match = ''*'', arg_limit = 0, arg_types = None,
        arg_behaviour = None, arg_format = ''text''\<rparr>"
  have a1: "info_reply (arg_redis ?args) = Inr [(''redis_version'', ''2.4.0'')]" by simp
  have a2: "map_of [(''redis_version'', ''2.4.0'')] ''redis_version'' = Some ''2.4.0''" by simp
  have a3: "map_int (split_on (CHR ''.'') ''2.4.0'') = Inr (2 # 4 # [0])" by code_simp
  from version_gate [OF a1 a2 a3, of simple_split "\<lambda>rule keys n. (rule, n)" "\<lambda>g. ()"] a3
  show ?thesis by simp
qed

text \<open>A supported version: scenario A of the spec, from the connection to the printed census.\<close>

lemma version_gate_supported_example:
  "rma_main simple_split (\<lambda>rule keys n. (rule, n)) (\<lambda>g. ())
     \<lparr>arg_redis = \<lparr>info_reply = Inr [(''redis_version'', ''2.6.0'')], dbsize = 2,
                     scanned = [\<lparr>name = ''user:1:p'', type = REDIS_TYPE_ID_STRING, encoding = 0, ttl = - 1\<rparr>,
                                \<lparr>name = ''user:2:p'', type = REDIS_TYPE_ID_STRING, encoding = 0, ttl = - 1\<rparr>]\<rparr>,
        arg_separator = CHR '':'', arg_match = ''*'', arg_limit = 2, arg_types = None,
        arg_behaviour = Some ''scanner'', arg_format = ''text''\<rparr> =
     ([INFO, SCAN, DBSIZE, DBSIZE, PRINT],
      Inr [Keys [(''user:*:p'', 2, ''string'', 100)]] :: error + (rule \<times> nat, unit) result list)"
  by code_simp

end
